theory Spec2Isabelle
  imports Complex_Main
begin

section \<open>The ROA rendezvous simulator (roa_rendezvous_v31.py)\<close>

text \<open>
  The program works on Python and numpy floats. They are read here as real numbers:
  every arithmetic operation of the source is the exact operation on \<^typ>\<open>real\<close>,
  and \<open>np.sin\<close>, \<open>np.cos\<close> are \<^const>\<open>sin\<close> and \<^const>\<open>cos\<close>. The literals
  \<open>1e-4\<close> and \<open>1e-9\<close> are written \<open>0.0001\<close> and \<open>0.000000001\<close>.
  The counter \<open>cycle\<close> is a Python int that starts at 0 and is only incremented: a
  \<^typ>\<open>nat\<close>. Console output (\<open>print\<close>, \<open>tqdm\<close>) is left out. Where the rounding of
  binary64 changes what the program does, in the sum of line 76, the planner and the
  constructor are given a second time with every float operation rounded. The source's
  variable \<open>dist\<close> is written \<open>dst\<close> in \<open>engage_phase_drive\<close> and \<open>sep\<close> in
  the driver, \<open>dist\<close> being the distance of a metric space in HOL.
\<close>

subsection \<open>Phase intensity and the interaction solver\<close>

definition gamma :: real where
  "gamma = 1.61803398875"

definition get_roa_phase_intensity :: "real \<Rightarrow> nat \<Rightarrow> real" where
  "get_roa_phase_intensity t cycle_idx =
     (let wave = sin (t * gamma + real cycle_idx) + 0.5 * cos (t * real cycle_idx / gamma)
      in \<bar>wave\<bar>)"

text \<open>The effective interaction radius of lines 32 to 40.\<close>

definition effective_radius :: "real \<Rightarrow> nat \<Rightarrow> nat \<Rightarrow> real \<Rightarrow> real" where
  "effective_radius t_now idxA idxB current_radius =
     (let intensity_A = get_roa_phase_intensity t_now idxA;
          intensity_B = get_roa_phase_intensity t_now idxB;
          field_strength = (intensity_A + intensity_B) / 2.0 + 0.5
      in current_radius * field_strength * 2.5)"

text \<open>\<open>None\<close> is Python's \<open>None\<close>: no meeting on this leg.\<close>

definition solve_roa_phase_locked_physics ::
  "real \<Rightarrow> real \<Rightarrow> real \<Rightarrow> real \<Rightarrow> real \<Rightarrow> real \<Rightarrow> nat \<Rightarrow> nat \<Rightarrow> real \<Rightarrow> real option" where
  "solve_roa_phase_locked_physics t_now duration pA vA pB vB idxA idxB current_radius =
     (let rel_pos = \<bar>pA - pB\<bar> in
      if rel_pos < 0.0001 then Some 0.0
      else if rel_pos < effective_radius t_now idxA idxB current_radius then Some 0.001
      else
        (let rel_vel = vA - vB in
         if \<bar>rel_vel\<bar> > 0.000000001 then
           (let dt = - (pA - pB) / rel_vel in
            if 0 \<le> dt \<and> dt \<le> duration then Some dt else None)
         else None))"

subsection \<open>The agent\<close>

record agent =
  origin :: real
  pos :: real
  cycle :: nat
  target :: real
  duration :: real
  velocity :: real
  timer :: real
  current_search_radius :: real

text \<open>
  The random generator is the sequence of the draws it is still to make; a seed fixes this
  sequence. \<open>np.random.choice([1, -1])\<close> takes the next draw: \<open>True\<close> picks the
  first element of the list, \<open>False\<close> the second.
\<close>

type_synonym rng = "nat \<Rightarrow> bool"

definition np_random_choice :: "rng \<Rightarrow> int \<times> rng" where
  "np_random_choice g = (if g 0 then 1 else - 1, \<lambda>n. g (Suc n))"

text \<open>
  \<open>OverflowError\<close>: line 73 with \<open>cycle\<close> at 1024 or above, where Python cannot convert
  the int \<open>2 ** cycle\<close> to a float and raises. \<open>InvalidDivide\<close>: the division of line 79
  with \<open>duration = 0\<close>. Its operands are numpy floats, so the source stores \<open>nan\<close> (with a
  warning) as the velocity and goes on; the model stops there, a real number having no such
  value. \<open>MeanOfEmpty\<close>: \<open>np.mean\<close> of the empty list, \<open>nan\<close> as well.
\<close>

datatype error = OverflowError | InvalidDivide | MeanOfEmpty

definition engage_phase_drive :: "agent \<Rightarrow> rng \<Rightarrow> error + agent \<times> rng" where
  "engage_phase_drive a g =
     (if 1024 \<le> cycle a then Inl OverflowError
      else
        (let radius = 1.0 * 2 ^ cycle a;
             (direction, g') = np_random_choice g;
             speed = 1.0;
             tgt = origin a + real_of_int direction * radius;
             dst = \<bar>tgt - pos a\<bar>;
             dur = dst / speed
         in if dur = 0 then Inl InvalidDivide
            else Inr (a\<lparr>current_search_radius := radius, target := tgt, duration := dur,
                        velocity := (tgt - pos a) / dur, timer := 0, cycle := cycle a + 1\<rparr>, g')))"

text \<open>The constructor \<open>ROAPhaseAgent.__init__\<close>.\<close>

definition ROAPhaseAgent :: "real \<Rightarrow> rng \<Rightarrow> error + agent \<times> rng" where
  "ROAPhaseAgent start_pos g =
     engage_phase_drive
       \<lparr>origin = start_pos, pos = start_pos, cycle = 0, target = 0, duration = 0,
        velocity = 0, timer = 0, current_search_radius = 0\<rparr> g"

text \<open>\<open>n\<close> further calls of \<open>engage_phase_drive\<close> on the same agent, one after the other.\<close>

fun engage_times :: "nat \<Rightarrow> agent \<Rightarrow> rng \<Rightarrow> error + agent \<times> rng" where
  "engage_times 0 a g = Inr (a, g)"
| "engage_times (Suc n) a g =
     (case engage_phase_drive a g of
        Inl e \<Rightarrow> Inl e
      | Inr (a', g') \<Rightarrow> engage_times n a' g')"

subsection \<open>The simulation driver\<close>

record trial_state =
  global_t :: real
  agent_A :: agent
  agent_B :: agent
  gen :: rng

text \<open>Lines 91 to 93: both agents are built, A first.\<close>

definition trial_init :: "real \<Rightarrow> rng \<Rightarrow> error + trial_state" where
  "trial_init sep g =
     (case ROAPhaseAgent 0.0 g of
        Inl e \<Rightarrow> Inl e
      | Inr (a, g1) \<Rightarrow>
          (case ROAPhaseAgent sep g1 of
             Inl e \<Rightarrow> Inl e
           | Inr (b, g2) \<Rightarrow> Inr \<lparr>global_t = 0.0, agent_A = a, agent_B = b, gen = g2\<rparr>))"

text \<open>Lines 97 to 99.\<close>

definition step_dt :: "trial_state \<Rightarrow> real" where
  "step_dt s =
     (let rem_A = duration (agent_A s) - timer (agent_A s);
          rem_B = duration (agent_B s) - timer (agent_B s)
      in min rem_A rem_B)"

text \<open>Lines 101 to 107: the solver call of one iteration.\<close>

definition physics_check :: "trial_state \<Rightarrow> real option" where
  "physics_check s =
     solve_roa_phase_locked_physics (global_t s) (step_dt s)
       (pos (agent_A s)) (velocity (agent_A s))
       (pos (agent_B s)) (velocity (agent_B s))
       (cycle (agent_A s)) (cycle (agent_B s))
       (max (current_search_radius (agent_A s)) (current_search_radius (agent_B s)))"

text \<open>Lines 114 and 115 (116 and 117 for B): one agent moves for \<open>dt\<close>.\<close>

definition advance :: "real \<Rightarrow> agent \<Rightarrow> agent" where
  "advance dt a = a\<lparr>pos := pos a + velocity a * dt, timer := timer a + dt\<rparr>"

text \<open>Lines 119 and 120 (121 and 122 for B): the next leg, when this one is over.\<close>

definition next_leg :: "agent \<Rightarrow> rng \<Rightarrow> error + agent \<times> rng" where
  "next_leg a g =
     (if \<bar>duration a - timer a\<bar> < 0.000000001 then engage_phase_drive a g else Inr (a, g))"

text \<open>Lines 113 to 122: the rest of an iteration in which the solver found no meeting.\<close>

definition update_position :: "trial_state \<Rightarrow> error + trial_state" where
  "update_position s =
     (let dt = step_dt s;
          a1 = advance dt (agent_A s);
          b1 = advance dt (agent_B s)
      in case next_leg a1 (gen s) of
           Inl e \<Rightarrow> Inl e
         | Inr (a2, g1) \<Rightarrow>
             (case next_leg b1 g1 of
                Inl e \<Rightarrow> Inl e
              | Inr (b2, g2) \<Rightarrow>
                  Inr \<lparr>global_t = global_t s + dt, agent_A = a2, agent_B = b2, gen = g2\<rparr>))"

text \<open>
  The \<open>while\<close> loop of lines 96 to 124. It returns the flag \<open>met\<close>, the time appended to
  \<open>meeting_times\<close> and the generator; \<open>None\<close> is a loop that never ends.
\<close>

partial_function (option) trial_loop :: "trial_state \<Rightarrow> (error + (bool \<times> real) \<times> rng) option" where
  "trial_loop s =
     (if global_t s < 1000.0 then
        (case physics_check s of
           Some hit \<Rightarrow> Some (Inr ((True, global_t s + hit), gen s))
         | None \<Rightarrow>
             (case update_position s of
                Inl e \<Rightarrow> Some (Inl e)
              | Inr s' \<Rightarrow> trial_loop s'))
      else Some (Inr ((False, global_t s), gen s)))"

definition trial :: "real \<Rightarrow> rng \<Rightarrow> (error + (bool \<times> real) \<times> rng) option" where
  "trial sep g = (case trial_init sep g of Inl e \<Rightarrow> Some (Inl e) | Inr s \<Rightarrow> trial_loop s)"

text \<open>The \<open>for\<close> loop over the trials, with \<open>meeting_times\<close> as accumulator.\<close>

fun run_trials :: "nat \<Rightarrow> real \<Rightarrow> rng \<Rightarrow> real list \<Rightarrow> (error + real list \<times> rng) option" where
  "run_trials 0 sep g meeting_times = Some (Inr (meeting_times, g))"
| "run_trials (Suc n) sep g meeting_times =
     (case trial sep g of
        None \<Rightarrow> None
      | Some (Inl e) \<Rightarrow> Some (Inl e)
      | Some (Inr ((met, tm), g')) \<Rightarrow> run_trials n sep g' (meeting_times @ [tm]))"

definition np_mean :: "real list \<Rightarrow> error + real" where
  "np_mean xs = (if xs = [] then Inl MeanOfEmpty else Inr (sum_list xs / real (length xs)))"

definition simulate_v31_final_completion :: "nat \<Rightarrow> real \<Rightarrow> rng \<Rightarrow> (error + real) option" where
  "simulate_v31_final_completion trials sep g =
     (case run_trials trials sep g [] of
        None \<Rightarrow> None
      | Some (Inl e) \<Rightarrow> Some (Inl e)
      | Some (Inr (meeting_times, g')) \<Rightarrow> Some (np_mean meeting_times))"

text \<open>
  The states at the head of the \<open>while\<close> loop that a trial with separation \<open>sep\<close> and
  generator \<open>g\<close> goes through.
\<close>

inductive reachable :: "real \<Rightarrow> rng \<Rightarrow> trial_state \<Rightarrow> bool" for sep :: real and g :: rng where
  reach_init: "trial_init sep g = Inr s \<Longrightarrow> reachable sep g s"
| reach_step: "reachable sep g s \<Longrightarrow> global_t s < 1000.0 \<Longrightarrow> physics_check s = None \<Longrightarrow>
     update_position s = Inr s' \<Longrightarrow> reachable sep g s'"

subsection \<open>The planner in binary64 arithmetic\<close>

text \<open>
  \<open>round_binary64\<close> is the rounding of IEEE 754 binary64: to the nearest number with 53
  significant bits, ties to the even one, with the fixed spacing \<open>2 ^ -1074\<close> below
  \<open>2 ^ -1022\<close>. A number of magnitude \<open>2 ^ 1024\<close> or above, which binary64 turns into
  \<open>inf\<close>, is not a \<open>binary64_value\<close>.
\<close>

definition round_half_even :: "real \<Rightarrow> int" where
  "round_half_even y =
     (let f = \<lfloor>y\<rfloor>; r = y - real_of_int f
      in if r < 1 / 2 then f else if 1 / 2 < r then f + 1 else if even f then f else f + 1)"

definition binary64_exponent :: "real \<Rightarrow> int" where
  "binary64_exponent x = max \<lfloor>log 2 \<bar>x\<bar>\<rfloor> (- 1022)"

definition round_binary64 :: "real \<Rightarrow> real" where
  "round_binary64 x =
     (if x = 0 then 0
      else (let q = 2 powr real_of_int (binary64_exponent x - 52)
            in real_of_int (round_half_even (x / q)) * q))"


text \<open>
  Lines 73 to 81 on an agent whose fields are binary64 values, with the result of every
  float operation rounded: the sum of line 76, the difference of lines 77 and 79, the
  quotients of lines 78 and 79. The power of line 73 and its products with \<open>1.0\<close> and with
  the direction are exact. As above, the model stops where the source stores \<open>nan\<close>; it
  has no \<open>inf\<close> either, so it is the source only while the results stay below
  \<open>2 ^ 1024\<close> in magnitude.
\<close>

definition engage_phase_drive_binary64 :: "agent \<Rightarrow> rng \<Rightarrow> error + agent \<times> rng" where
  "engage_phase_drive_binary64 a g =
     (if 1024 \<le> cycle a then Inl OverflowError
      else
        (let radius = 1.0 * 2 ^ cycle a;
             (direction, g') = np_random_choice g;
             speed = 1.0;
             tgt = round_binary64 (origin a + real_of_int direction * radius);
             dst = \<bar>round_binary64 (tgt - pos a)\<bar>;
             dur = round_binary64 (dst / speed)
         in if dur = 0 then Inl InvalidDivide
            else Inr (a\<lparr>current_search_radius := radius, target := tgt, duration := dur,
                        velocity := round_binary64 (round_binary64 (tgt - pos a) / dur),
                        timer := 0, cycle := cycle a + 1\<rparr>, g')))"

definition ROAPhaseAgent_binary64 :: "real \<Rightarrow> rng \<Rightarrow> error + agent \<times> rng" where
  "ROAPhaseAgent_binary64 start_pos g =
     engage_phase_drive_binary64
       \<lparr>origin = start_pos, pos = start_pos, cycle = 0, target = 0, duration = 0,
        velocity = 0, timer = 0, current_search_radius = 0\<rparr> g"


subsection \<open>Invariants\<close>

text \<open>
  The invariant of an agent between two calls of \<open>engage_phase_drive\<close>: it has planned at
  least one leg, the radius is that of the last plan, the target is on one side of the
  origin at that radius, the speed is 1, the timer is within the leg, and the agent reaches
  the target when the leg is over.
\<close>

definition on_leg :: "agent \<Rightarrow> bool" where
  "on_leg a \<longleftrightarrow>
     cycle a \<noteq> 0 \<and> current_search_radius a = 2 ^ (cycle a - 1) \<and>
     (target a = origin a + current_search_radius a \<or>
      target a = origin a - current_search_radius a) \<and>
     (velocity a = 1 \<or> velocity a = - 1) \<and>
     0 \<le> timer a \<and> timer a \<le> duration a \<and>
     pos a + velocity a * (duration a - timer a) = target a"

text \<open>The leg is not yet over, by the tolerance of lines 119 and 121.\<close>

definition leg_open :: "agent \<Rightarrow> bool" where
  "leg_open a \<longleftrightarrow> on_leg a \<and> 0.000000001 \<le> duration a - timer a"

text \<open>
  The leg and the clock: the leg began at a time that is not negative, and the cycle counter
  is bounded by the duration of the leg and by the time at which it began.
\<close>

definition leg_timed :: "real \<Rightarrow> agent \<Rightarrow> bool" where
  "leg_timed t a \<longleftrightarrow>
     timer a \<le> t \<and> 2 ^ cycle a \<le> 4 * duration a + 2 \<and> 2 ^ cycle a \<le> 8 * (t - timer a) + 8"

definition trial_inv :: "trial_state \<Rightarrow> bool" where
  "trial_inv s \<longleftrightarrow>
     leg_open (agent_A s) \<and> leg_open (agent_B s) \<and>
     leg_timed (global_t s) (agent_A s) \<and> leg_timed (global_t s) (agent_B s)"

section \<open>The interaction solver\<close>

lemma intensity_at_start: "get_roa_phase_intensity 0 0 = 0.5"
  by (simp add: get_roa_phase_intensity_def)

lemma effective_radius_at_start: "effective_radius 0 0 0 r = r * 2.5"
  by (simp add: effective_radius_def intensity_at_start)

text \<open>
  C5: whenever the two positions are closer than \<open>1e-4\<close>, the solver returns \<open>0.0\<close>,
  whatever the time, the leg duration, the velocities, the cycle indices and the radius.
\<close>

theorem solve_coincidence:
  "\<bar>pA - pB\<bar> < 0.0001 \<Longrightarrow>
   solve_roa_phase_locked_physics t_now dur pA vA pB vB idxA idxB current_radius = Some 0"
  by (simp add: solve_roa_phase_locked_physics_def)

theorem solve_coincidence_witness:
  "\<bar>(3::real) - 3.00005\<bar> < 0.0001 \<and>
   solve_roa_phase_locked_physics 7 2 3 1 3.00005 (- 1) 4 5 16 = Some 0"
proof -
  have h: "\<bar>(3::real) - 3.00005\<bar> < 0.0001" by simp
  show ?thesis using h solve_coincidence [OF h, of 7 2 1 "- 1" 4 5 16] by simp
qed

text \<open>
  C6: when the coincidence shortcut does not fire and the distance is below the effective
  radius \<open>radius * ((intensity t cycleA + intensity t cycleB) / 2 + 0.5) * 2.5\<close>, the
  solver returns exactly \<open>0.001\<close>.
\<close>

theorem solve_field_branch:
  "0.0001 \<le> \<bar>pA - pB\<bar> \<Longrightarrow>
   \<bar>pA - pB\<bar> < current_radius *
       ((get_roa_phase_intensity t_now idxA + get_roa_phase_intensity t_now idxB) / 2 + 0.5) * 2.5 \<Longrightarrow>
   solve_roa_phase_locked_physics t_now dur pA vA pB vB idxA idxB current_radius = Some 0.001"
  by (simp add: solve_roa_phase_locked_physics_def effective_radius_def)

theorem solve_field_branch_witness:
  "0.0001 \<le> \<bar>(0::real) - 2\<bar> \<and>
   \<bar>(0::real) - 2\<bar> < 1 * ((get_roa_phase_intensity 0 0 + get_roa_phase_intensity 0 0) / 2 + 0.5) * 2.5 \<and>
   solve_roa_phase_locked_physics 0 1 0 1 2 (- 1) 0 0 1 = Some 0.001"
proof -
  have h1: "0.0001 \<le> \<bar>(0::real) - 2\<bar>" by simp
  have h2: "\<bar>(0::real) - 2\<bar>
      < 1 * ((get_roa_phase_intensity 0 0 + get_roa_phase_intensity 0 0) / 2 + 0.5) * 2.5"
    by (simp add: intensity_at_start)
  show ?thesis using h1 h2 solve_field_branch [OF h1 h2, of 1 1 "- 1"] by simp
qed

text \<open>
  C1 as stated fails: with a leg duration of \<open>0.0005\<close> and two agents one unit apart,
  the field branch returns \<open>0.001\<close>, which is beyond the leg.
\<close>

theorem solve_range_counterexample:
  "\<not> ((0::real) \<le> 0.0005 \<longrightarrow>
      (case solve_roa_phase_locked_physics 0 0.0005 0 1 1 1 0 0 1 of
         None \<Rightarrow> True
       | Some x \<Rightarrow> 0 \<le> x \<and> x \<le> 0.0005))"
  by (simp add: solve_roa_phase_locked_physics_def effective_radius_at_start)

text \<open>
  C1, amended: for a leg duration that is not negative the solver returns nothing, or an
  offset within \<open>[0, duration]\<close> (the \<open>0.0\<close> of the coincidence shortcut, the \<open>dt\<close> of
  the classical fallback), or the constant \<open>0.001\<close> of the field branch, which does not
  depend on the duration.
\<close>

theorem solve_range:
  "0 \<le> dur \<Longrightarrow>
   (case solve_roa_phase_locked_physics t_now dur pA vA pB vB idxA idxB current_radius of
      None \<Rightarrow> True
    | Some x \<Rightarrow>
        (0 \<le> x \<and> x \<le> dur) \<or>
        (x = 0.001 \<and> 0.0001 \<le> \<bar>pA - pB\<bar> \<and>
         \<bar>pA - pB\<bar> < effective_radius t_now idxA idxB current_radius))"
  by (simp add: solve_roa_phase_locked_physics_def Let_def)

theorem solve_range_witness:
  "(0::real) \<le> 8 \<and> solve_roa_phase_locked_physics 0 8 0 1 10 (- 1) 0 0 1 = Some 5 \<and>
   (case solve_roa_phase_locked_physics 0 8 0 1 10 (- 1) 0 0 1 of
      None \<Rightarrow> True
    | Some x \<Rightarrow>
        (0 \<le> x \<and> x \<le> 8) \<or>
        (x = 0.001 \<and> 0.0001 \<le> \<bar>(0::real) - 10\<bar> \<and> \<bar>(0::real) - 10\<bar> < effective_radius 0 0 0 1))"
proof -
  have h: "(0::real) \<le> 8" by simp
  have v: "solve_roa_phase_locked_physics 0 8 0 1 10 (- 1) 0 0 1 = Some 5"
    by (simp add: solve_roa_phase_locked_physics_def effective_radius_at_start)
  show ?thesis using h v solve_range [OF h, where t_now = 0 and pA = 0 and vA = 1 and pB = 10 and vB = "- 1"
      and idxA = 0 and idxB = 0 and current_radius = 1] by simp
qed

section \<open>Planning a leg\<close>

lemma choice_cases: "fst (np_random_choice g) = 1 \<or> fst (np_random_choice g) = - 1"
  by (simp add: np_random_choice_def)

lemma floor_log2:
  assumes "2 ^ n \<le> x" and "x < 2 ^ Suc n"
  shows "\<lfloor>log 2 x\<rfloor> = int n"
proof -
  have "(0::real) < 2 ^ n" by simp
  with assms(1) have p: "0 < x" by linarith
  have "2 powr real_of_int (int n) \<le> x \<and> x < 2 powr real_of_int (int n + 1)"
    using assms by (simp add: powr_realpow powr_add)
  with p show ?thesis
    by (subst floor_log_eq_powr_iff) simp_all
qed

lemma round_binary64_eval:
  assumes "x \<noteq> 0" and "binary64_exponent x = e" and "2 powr real_of_int (e - 52) = q"
    and "round_half_even (x / q) = n"
  shows "round_binary64 x = real_of_int n * q"
  using assms by (simp add: round_binary64_def Let_def)

lemma round_half_even_down:
  assumes "real_of_int f \<le> y" and "y < real_of_int f + 1 / 2"
  shows "round_half_even y = f"
proof -
  from assms have "\<lfloor>y\<rfloor> = f" by (simp add: floor_eq_iff)
  with assms show ?thesis by (simp add: round_half_even_def Let_def)
qed

lemma round_half_even_up:
  assumes "real_of_int f + 1 / 2 < y" and "y < real_of_int f + 1"
  shows "round_half_even y = f + 1"
proof -
  from assms have "\<lfloor>y\<rfloor> = f" by (simp add: floor_eq_iff)
  with assms show ?thesis by (simp add: round_half_even_def Let_def)
qed





lemma engage_at_origin:
  assumes "pos a = origin a" and "cycle a < 1024"
  shows "\<exists>a' g'. engage_phase_drive a g = Inr (a', g') \<and> pos a' = origin a' \<and>
           cycle a' = Suc (cycle a) \<and> current_search_radius a' = 2 ^ cycle a"
  using assms choice_cases [of g]
  by (auto simp add: engage_phase_drive_def Let_def split: prod.splits)

lemma engage_times_at_origin:
  "pos a = origin a \<Longrightarrow> cycle a = Suc k \<Longrightarrow> current_search_radius a = 2 ^ k \<Longrightarrow>
   k + n < 1024 \<Longrightarrow>
   \<exists>a' g'. engage_times n a g = Inr (a', g') \<and> pos a' = origin a' \<and> cycle a' = Suc (k + n) \<and>
     current_search_radius a' = 2 ^ (k + n)"
proof (induction n arbitrary: a g k)
  case 0
  then show ?case by simp
next
  case (Suc n)
  from Suc.prems(2,4) have "cycle a < 1024" by simp
  from engage_at_origin [OF Suc.prems(1) this, of g]
  obtain a1 g1 where e: "engage_phase_drive a g = Inr (a1, g1)" and p: "pos a1 = origin a1"
    and c: "cycle a1 = Suc (cycle a)" and r: "current_search_radius a1 = 2 ^ cycle a"
    by blast
  from c r Suc.prems(2) have c1: "cycle a1 = Suc (Suc k)" and r1: "current_search_radius a1 = 2 ^ Suc k"
    by simp_all
  from Suc.prems(4) have b: "Suc k + n < 1024" by simp
  from Suc.IH [OF p c1 r1 b, of g1] e show ?case by auto
qed

lemma ROAPhaseAgent_built:
  "\<exists>a g'. ROAPhaseAgent p g = Inr (a, g') \<and> pos a = p \<and> origin a = p \<and> cycle a = 1 \<and>
     current_search_radius a = 1 \<and> timer a = 0 \<and> duration a = 1 \<and>
     (target a = p + 1 \<and> velocity a = 1 \<or> target a = p - 1 \<and> velocity a = - 1)"
  using choice_cases [of g]
  by (auto simp add: ROAPhaseAgent_def engage_phase_drive_def Let_def split: prod.splits)

lemma engage_times_split:
  "engage_times (n + m) a g =
     (case engage_times n a g of Inl e \<Rightarrow> Inl e | Inr (a', g') \<Rightarrow> engage_times m a' g')"
  by (induction n arbitrary: a g) (auto split: sum.splits)

text \<open>
  C3 as stated fails: on an agent built at 0, the 1024th further call finds the cycle
  counter at 1024 and raises at line 73.
\<close>

theorem search_radius_after_calls_counterexample:
  "ROAPhaseAgent 0 (\<lambda>n. True) =
     Inr (\<lparr>origin = 0, pos = 0, cycle = 1, target = 1, duration = 1, velocity = 1, timer = 0,
       current_search_radius = 1\<rparr>, \<lambda>n. True) \<and>
   engage_times 1024
     \<lparr>origin = 0, pos = 0, cycle = 1, target = 1, duration = 1, velocity = 1, timer = 0,
       current_search_radius = 1\<rparr> (\<lambda>n. True) = Inl OverflowError"
proof -
  let ?a = "\<lparr>origin = 0, pos = 0, cycle = 1, target = 1, duration = 1, velocity = 1,
    timer = 0, current_search_radius = 1\<rparr>"
  have b: "ROAPhaseAgent 0 (\<lambda>n. True) = Inr (?a, \<lambda>n. True)"
    by (simp add: ROAPhaseAgent_def engage_phase_drive_def np_random_choice_def)
  have "pos ?a = origin ?a" and "cycle ?a = Suc 0" and "current_search_radius ?a = 2 ^ 0"
    and "0 + 1023 < (1024::nat)"
    by simp_all
  from engage_times_at_origin [OF this, of "\<lambda>n. True"] obtain a' g'
    where e: "engage_times 1023 ?a (\<lambda>n. True) = Inr (a', g')" and c: "cycle a' = Suc (0 + 1023)"
    by blast
  from c have "engage_phase_drive a' g' = Inl OverflowError"
    by (simp add: engage_phase_drive_def)
  then have "engage_times 1 a' g' = Inl OverflowError"
    by simp
  with e engage_times_split [of 1023 1 ?a "\<lambda>n. True"]
  have "engage_times 1024 ?a (\<lambda>n. True) = Inl OverflowError"
    by simp
  with b show ?thesis by simp
qed

text \<open>
  C3, amended: an agent built at any position \<open>p\<close> (the constructor plans the first leg, of
  radius \<open>2 ^ 0\<close>) has, after \<open>n\<close> further calls of \<open>engage_phase_drive\<close> with \<open>n\<close> at most
  1023, the search radius \<open>2 ^ n\<close>: the radius is \<open>2\<close> to the cycle counter before its
  increment, the counter being \<open>n + 1\<close> afterwards. None of these calls raises.
\<close>

theorem search_radius_after_calls:
  assumes "n \<le> 1023"
  shows "\<exists>a g1 a' g'. ROAPhaseAgent p g = Inr (a, g1) \<and> engage_times n a g1 = Inr (a', g') \<and>
     current_search_radius a' = 2 ^ n \<and> cycle a' = Suc n"
proof -
  obtain a g1 where b: "ROAPhaseAgent p g = Inr (a, g1)" and po: "pos a = origin a"
    and c: "cycle a = Suc 0" and r: "current_search_radius a = 2 ^ 0"
    using ROAPhaseAgent_built [of p g] by auto
  from assms have "0 + n < 1024" by simp
  from engage_times_at_origin [OF po c r this, of g1] b show ?thesis by auto
qed

theorem search_radius_after_calls_witness:
  "(3::nat) \<le> 1023 \<and>
   (\<exists>a g1 a' g'. ROAPhaseAgent 5 (\<lambda>n. even n) = Inr (a, g1) \<and>
      engage_times 3 a g1 = Inr (a', g') \<and> current_search_radius a' = 8 \<and> cycle a' = 4)"
proof -
  have h: "(3::nat) \<le> 1023" by simp
  from search_radius_after_calls [OF h, of 5 "\<lambda>n. even n"] h show ?thesis by simp
qed

section \<open>The driver\<close>

lemma first_check_coincident:
  "\<exists>s. trial_init 0 g = Inr s \<and> global_t s = 0 \<and> physics_check s = Some 0"
proof -
  obtain a g1 where a: "ROAPhaseAgent 0 g = Inr (a, g1)" and pa: "pos a = 0"
    using ROAPhaseAgent_built [of 0 g] by blast
  obtain b g2 where b: "ROAPhaseAgent 0 g1 = Inr (b, g2)" and pb: "pos b = 0"
    using ROAPhaseAgent_built [of 0 g1] by blast
  show ?thesis using a b pa pb
    by (simp add: trial_init_def physics_check_def solve_roa_phase_locked_physics_def)
qed

lemma trial_coincident: "\<exists>g'. trial 0 g = Some (Inr ((True, 0), g'))"
proof -
  obtain s where i: "trial_init 0 g = Inr s" and t: "global_t s = 0"
    and c: "physics_check s = Some 0"
    using first_check_coincident [of g] by blast
  have "trial_loop s = Some (Inr ((True, 0), gen s))"
    by (subst trial_loop.simps) (simp add: t c)
  with i show ?thesis by (simp add: trial_def)
qed

lemma run_trials_coincident:
  "\<exists>g'. run_trials n 0 g acc = Some (Inr (acc @ replicate n 0, g'))"
proof (induction n arbitrary: g acc)
  case 0
  then show ?case by simp
next
  case (Suc n)
  obtain g1 where t: "trial 0 g = Some (Inr ((True, 0), g1))"
    using trial_coincident [of g] by blast
  from Suc.IH [of g1 "acc @ [0]"] t show ?case
    by (simp add: replicate_app_Cons_same)
qed

text \<open>
  C4: with an initial separation of \<open>0.0\<close> the first solver call of a trial returns
  \<open>0.0\<close>, whatever the generator draws, and for at least one trial the driver returns
  the mean \<open>0.0\<close>.
\<close>

theorem zero_separation:
  "1 \<le> trials \<Longrightarrow>
   (\<exists>s. trial_init 0 g = Inr s \<and> physics_check s = Some 0) \<and>
   simulate_v31_final_completion trials 0 g = Some (Inr 0)"
proof -
  assume n: "1 \<le> trials"
  obtain g' where r: "run_trials trials 0 g [] = Some (Inr ([] @ replicate trials 0, g'))"
    using run_trials_coincident [of trials g "[]"] by blast
  from n have ne: "replicate trials (0::real) \<noteq> []" by auto
  have "simulate_v31_final_completion trials 0 g = Some (Inr 0)"
    using r ne by (simp add: simulate_v31_final_completion_def np_mean_def sum_list_replicate)
  with first_check_coincident [of g] show ?thesis by blast
qed

theorem zero_separation_witness:
  "(1::nat) \<le> 3 \<and> (\<exists>s. trial_init 0 (\<lambda>n. even n) = Inr s \<and> physics_check s = Some 0) \<and>
   simulate_v31_final_completion 3 0 (\<lambda>n. even n) = Some (Inr 0)"
proof -
  have h: "(1::nat) \<le> 3" by simp
  show ?thesis using h zero_separation [OF h, of "\<lambda>n. even n"] by simp
qed

section \<open>The invariant of a trial\<close>

lemma built_leg_open:
  assumes "ROAPhaseAgent p g = Inr (a, g')"
  shows "leg_open a \<and> leg_timed 0 a"
  using assms ROAPhaseAgent_built [of p g]
  by (auto simp add: leg_open_def on_leg_def leg_timed_def)

lemma advance_on_leg:
  assumes "leg_open a" and "0 \<le> dt" and "dt \<le> duration a - timer a"
  shows "on_leg (advance dt a)"
  using assms
  by (auto simp add: leg_open_def on_leg_def advance_def algebra_simps)

lemma advance_leg_timed:
  assumes "leg_timed t a"
  shows "leg_timed (t + dt) (advance dt a)"
  using assms by (simp add: leg_timed_def advance_def)

lemma cycle_bound:
  assumes "leg_timed t a" and "0 \<le> timer a" and "t < 1000"
  shows "cycle a < 13"
proof (rule ccontr)
  assume "\<not> cycle a < 13"
  then have "13 \<le> cycle a" by simp
  then have "(2::real) ^ 13 \<le> 2 ^ cycle a"
    by (rule power_increasing) simp
  moreover from assms have "2 ^ cycle a < (8008::real)"
    by (simp add: leg_timed_def)
  ultimately show False by simp
qed

lemma replan_leg_open:
  assumes l: "on_leg a" and near: "\<bar>duration a - timer a\<bar> < 0.000000001"
    and small: "cycle a < 1024"
  shows "\<exists>a' g''. engage_phase_drive a g' = Inr (a', g'') \<and> leg_open a' \<and>
           target a' \<noteq> pos a \<and> 0 < duration a' \<and> timer a' = 0 \<and>
           cycle a' = Suc (cycle a) \<and> 2 ^ cycle a \<le> 2 * duration a' + 1"
proof -
  from l obtain k where k: "cycle a = Suc k"
    by (cases "cycle a") (auto simp add: on_leg_def)
  define r :: real where "r = 2 ^ k"
  have r1: "1 \<le> r" by (simp add: r_def)
  from l k have rad: "current_search_radius a = r"
    by (simp add: on_leg_def r_def)
  have pw: "(2::real) ^ cycle a = 2 * r"
    by (simp add: k r_def)
  from l have "target a = origin a + current_search_radius a \<or>
      target a = origin a - current_search_radius a"
    by (auto simp add: on_leg_def)
  then have tg: "target a = origin a + r \<or> target a = origin a - r"
    by (simp only: rad)
  from l near have close: "\<bar>target a - pos a\<bar> < 0.000000001"
    by (auto simp add: on_leg_def)
  obtain d g'' where ch: "np_random_choice g' = (d, g'')"
    by (cases "np_random_choice g'")
  from ch have d: "d = 1 \<or> d = - 1"
    using choice_cases [of g'] by auto
  define tgt where "tgt = origin a + real_of_int d * (2 * r)"
  from d tg r1 close have far: "tgt \<noteq> pos a"
    by (auto simp add: tgt_def)
  from d tg r1 close have long: "r - 0.000000001 \<le> \<bar>tgt - pos a\<bar>"
    unfolding tgt_def by (elim disjE) (simp_all add: abs_if split: if_splits)
  define a' where "a' = a\<lparr>current_search_radius := 2 * r, target := tgt,
     duration := \<bar>tgt - pos a\<bar>, velocity := (tgt - pos a) / \<bar>tgt - pos a\<bar>, timer := 0,
     cycle := cycle a + 1\<rparr>"
  have e: "engage_phase_drive a g' = Inr (a', g'')"
    using ch far small by (simp add: engage_phase_drive_def Let_def pw tgt_def a'_def)
  have v: "velocity a' = 1 \<or> velocity a' = - 1"
    using far by (auto simp add: a'_def abs_if divide_eq_eq)
  have arrive: "pos a' + velocity a' * (duration a' - timer a') = target a'"
    using far by (simp add: a'_def)
  have f: "cycle a' = Suc (Suc k)" "current_search_radius a' = 2 * r" "target a' = tgt"
    "origin a' = origin a" "timer a' = 0" "duration a' = \<bar>tgt - pos a\<bar>"
    by (simp_all add: a'_def k)
  have c1: "cycle a' \<noteq> 0"
    by (simp add: f)
  have c2: "current_search_radius a' = 2 ^ (cycle a' - 1)"
    by (simp add: f r_def)
  have c3: "target a' = origin a' + current_search_radius a' \<or>
      target a' = origin a' - current_search_radius a'"
    using d by (auto simp add: f tgt_def)
  have c4: "0 \<le> timer a' \<and> timer a' \<le> duration a'"
    by (simp add: f)
  have "on_leg a'"
    unfolding on_leg_def using c1 c2 c3 v c4 arrive by blast
  moreover from long r1 have "0.000000001 \<le> duration a' - timer a'"
    by (simp add: f)
  ultimately have "leg_open a'"
    by (simp add: leg_open_def)
  moreover have "target a' \<noteq> pos a \<and> 0 < duration a' \<and> timer a' = 0"
    using far by (simp add: f)
  moreover have "cycle a' = Suc (cycle a)"
    by (simp add: f k)
  moreover from long have "2 ^ cycle a \<le> 2 * duration a' + 1"
    by (simp add: pw f)
  ultimately show ?thesis using e by blast
qed

lemma next_leg_open:
  assumes l: "on_leg a" and t: "leg_timed t a" and small: "cycle a < 1024"
  shows "\<exists>a' g''. next_leg a g' = Inr (a', g'') \<and> leg_open a' \<and> leg_timed t a'"
proof (cases "\<bar>duration a - timer a\<bar> < 0.000000001")
  case True
  from replan_leg_open [OF l True small, of g'] obtain a' g''
    where e: "engage_phase_drive a g' = Inr (a', g'')" and o: "leg_open a'"
      and z: "timer a' = 0" and c: "cycle a' = Suc (cycle a)"
      and d: "2 ^ cycle a \<le> 2 * duration a' + 1"
    by blast
  from l have t0: "0 \<le> timer a"
    by (simp add: on_leg_def)
  from t have t1: "timer a \<le> t" and t2: "2 ^ cycle a \<le> 4 * duration a + 2"
    by (simp_all add: leg_timed_def)
  from True have t3: "duration a < timer a + 1 / 4"
    by (simp add: abs_if split: if_splits)
  from t0 t1 have p1: "timer a' \<le> t"
    by (simp add: z)
  from d have p2: "2 ^ cycle a' \<le> 4 * duration a' + 2"
    by (simp add: c)
  from t1 t2 t3 have "2 ^ cycle a \<le> 4 * t + 3"
    by linarith
  then have p3: "2 ^ cycle a' \<le> 8 * (t - timer a') + 8"
    by (simp add: c z)
  from p1 p2 p3 have "leg_timed t a'"
    by (simp add: leg_timed_def)
  with e o True show ?thesis
    by (auto simp add: next_leg_def)
next
  case False
  with l have "leg_open a"
    by (auto simp add: leg_open_def on_leg_def)
  with False t show ?thesis
    by (simp add: next_leg_def)
qed

lemma step_dt_bounds:
  assumes "leg_open (agent_A s)" and "leg_open (agent_B s)"
  shows "0.000000001 \<le> step_dt s"
    and "step_dt s \<le> duration (agent_A s) - timer (agent_A s)"
    and "step_dt s \<le> duration (agent_B s) - timer (agent_B s)"
  using assms by (simp_all add: step_dt_def leg_open_def)

lemma advance_ready:
  assumes o: "leg_open a" and t: "leg_timed t a" and lt: "t < 1000"
    and dt: "0 \<le> dt" and le: "dt \<le> duration a - timer a"
  shows "on_leg (advance dt a) \<and> leg_timed (t + dt) (advance dt a) \<and>
    cycle (advance dt a) < 1024"
proof -
  from o have "0 \<le> timer a"
    by (simp add: leg_open_def on_leg_def)
  from cycle_bound [OF t this lt] have "cycle (advance dt a) < 1024"
    by (simp add: advance_def)
  with advance_on_leg [OF o dt le] advance_leg_timed [OF t, of dt] show ?thesis
    by simp
qed

lemma update_keeps_inv:
  assumes i: "trial_inv s" and lt: "global_t s < 1000"
  shows "\<exists>s'. update_position s = Inr s' \<and> trial_inv s' \<and>
           global_t s + 0.000000001 \<le> global_t s'"
proof -
  from i have a: "leg_open (agent_A s)" and b: "leg_open (agent_B s)"
    and ta: "leg_timed (global_t s) (agent_A s)" and tb: "leg_timed (global_t s) (agent_B s)"
    by (simp_all add: trial_inv_def)
  from step_dt_bounds [OF a b] have dt: "0 \<le> step_dt s" "0.000000001 \<le> step_dt s"
    and da: "step_dt s \<le> duration (agent_A s) - timer (agent_A s)"
    and db: "step_dt s \<le> duration (agent_B s) - timer (agent_B s)"
    by simp_all
  from advance_ready [OF a ta lt dt(1) da]
  have la: "on_leg (advance (step_dt s) (agent_A s))"
    and ma: "leg_timed (global_t s + step_dt s) (advance (step_dt s) (agent_A s))"
    and ca: "cycle (advance (step_dt s) (agent_A s)) < 1024"
    by simp_all
  from advance_ready [OF b tb lt dt(1) db]
  have lb: "on_leg (advance (step_dt s) (agent_B s))"
    and mb: "leg_timed (global_t s + step_dt s) (advance (step_dt s) (agent_B s))"
    and cb: "cycle (advance (step_dt s) (agent_B s)) < 1024"
    by simp_all
  from next_leg_open [OF la ma ca, of "gen s"] obtain a2 g1
    where na: "next_leg (advance (step_dt s) (agent_A s)) (gen s) = Inr (a2, g1)"
      and oa: "leg_open a2" and qa: "leg_timed (global_t s + step_dt s) a2" by blast
  from next_leg_open [OF lb mb cb, of g1] obtain b2 g2
    where nb: "next_leg (advance (step_dt s) (agent_B s)) g1 = Inr (b2, g2)"
      and ob: "leg_open b2" and qb: "leg_timed (global_t s + step_dt s) b2" by blast
  show ?thesis using na nb oa ob qa qb dt(2)
    by (simp add: update_position_def Let_def trial_inv_def)
qed

lemma init_inv:
  assumes "trial_init sep g = Inr s"
  shows "trial_inv s"
proof -
  from assms obtain a g1 b g2 where a: "ROAPhaseAgent 0 g = Inr (a, g1)"
    and b: "ROAPhaseAgent sep g1 = Inr (b, g2)"
    and s: "s = \<lparr>global_t = 0, agent_A = a, agent_B = b, gen = g2\<rparr>"
    by (auto simp add: trial_init_def split: sum.splits)
  from built_leg_open [OF a] built_leg_open [OF b] s show ?thesis
    by (simp add: trial_inv_def)
qed

lemma reachable_inv:
  assumes "reachable sep g s"
  shows "trial_inv s"
  using assms
proof (induction rule: reachable.induct)
  case (reach_init s)
  then show ?case by (rule init_inv)
next
  case (reach_step s s')
  with update_keeps_inv [of s] show ?case by auto
qed

section \<open>The end of a trial\<close>

lemma intensity_le: "get_roa_phase_intensity t c \<le> 1.5"
proof -
  have "\<bar>sin (t * gamma + real c) + cos (t * real c / gamma) / 2\<bar> \<le> 3 / 2"
    using abs_sin_le_one [of "t * gamma + real c"] abs_cos_le_one [of "t * real c / gamma"]
    by linarith
  then show ?thesis
    by (simp add: get_roa_phase_intensity_def)
qed

lemma effective_radius_le:
  assumes "0 \<le> r"
  shows "effective_radius t i j r \<le> 5 * r"
proof -
  have "get_roa_phase_intensity t i \<le> 3 / 2" and "get_roa_phase_intensity t j \<le> 3 / 2"
    using intensity_le [of t i] intensity_le [of t j] by simp_all
  then have "(get_roa_phase_intensity t i + get_roa_phase_intensity t j) / 2 + 1 / 2 \<le> 2"
    by (simp add: add_divide_distrib)
  with assms
  have "r * ((get_roa_phase_intensity t i + get_roa_phase_intensity t j) / 2 + 1 / 2) \<le> r * 2"
    by (rule mult_left_mono [rotated])
  then show ?thesis
    by (simp add: effective_radius_def)
qed

lemma solve_parallel_far:
  assumes "vA = vB" and "0 \<le> r" and "5 * r \<le> \<bar>pA - pB\<bar>" and "0.0001 \<le> \<bar>pA - pB\<bar>"
  shows "solve_roa_phase_locked_physics t d pA vA pB vB i j r = None"
  using assms effective_radius_le [OF assms(2), of t i j]
  by (simp add: solve_roa_phase_locked_physics_def)

lemma trial_loop_returns:
  assumes "trial_inv s"
  shows "\<exists>r g'. trial_loop s = Some (Inr (r, g'))"
  using assms
proof (induction "nat \<lceil>(1000 - global_t s) * 1000000000\<rceil>" arbitrary: s rule: less_induct)
  case less
  show ?case
  proof (cases "global_t s < 1000")
    case False
    then show ?thesis
      by (subst trial_loop.simps) auto
  next
    case True
    show ?thesis
    proof (cases "physics_check s")
      case (Some hit)
      with True show ?thesis
        by (subst trial_loop.simps) auto
    next
      case None
      from update_keeps_inv [OF less.prems True] obtain s'
        where u: "update_position s = Inr s'" and i: "trial_inv s'"
          and t: "global_t s + 0.000000001 \<le> global_t s'"
        by blast
      define x where "x = (1000 - global_t s) * 1000000000"
      define x' where "x' = (1000 - global_t s') * 1000000000"
      from t have "x' \<le> x - 1"
        by (simp add: x_def x'_def)
      then have "\<lceil>x'\<rceil> \<le> \<lceil>x - 1\<rceil>"
        by (rule ceiling_mono)
      then have le: "\<lceil>x'\<rceil> \<le> \<lceil>x\<rceil> - 1"
        by (simp only: ceiling_diff_one)
      from True have "0 < x"
        by (simp add: x_def)
      then have "0 < \<lceil>x\<rceil>"
        by (simp only: zero_less_ceiling)
      with le have "nat \<lceil>x'\<rceil> < nat \<lceil>x\<rceil>"
        by linarith
      then have m: "nat \<lceil>(1000 - global_t s') * 1000000000\<rceil>
          < nat \<lceil>(1000 - global_t s) * 1000000000\<rceil>"
        unfolding x_def x'_def .
      from less.hyps [OF m i] obtain r g' where "trial_loop s' = Some (Inr (r, g'))"
        by blast
      with True None u show ?thesis
        by (subst trial_loop.simps) simp
    qed
  qed
qed

lemma trial_returns: "\<exists>met tm g'. trial sep g = Some (Inr ((met, tm), g'))"
proof -
  obtain a g1 where a: "ROAPhaseAgent 0 g = Inr (a, g1)"
    using ROAPhaseAgent_built [of 0 g] by blast
  obtain b g2 where b: "ROAPhaseAgent sep g1 = Inr (b, g2)"
    using ROAPhaseAgent_built [of sep g1] by blast
  define s where "s = \<lparr>global_t = 0, agent_A = a, agent_B = b, gen = g2\<rparr>"
  from a b have i: "trial_init sep g = Inr s"
    by (simp add: trial_init_def s_def)
  from trial_loop_returns [OF init_inv [OF i]] obtain r g'
    where "trial_loop s = Some (Inr (r, g'))" by blast
  with i show ?thesis
    by (cases r) (simp add: trial_def)
qed

lemma run_trials_returns:
  "\<exists>ts g'. run_trials n sep g acc = Some (Inr (acc @ ts, g')) \<and> length ts = n"
proof (induction n arbitrary: g acc)
  case 0
  then show ?case by simp
next
  case (Suc n)
  obtain met tm g1 where t: "trial sep g = Some (Inr ((met, tm), g1))"
    using trial_returns [of sep g] by blast
  from Suc.IH [of g1 "acc @ [tm]"] obtain ts g'
    where r: "run_trials n sep g1 (acc @ [tm]) = Some (Inr ((acc @ [tm]) @ ts, g'))"
      and l: "length ts = n" by blast
  from t r l have "run_trials (Suc n) sep g acc = Some (Inr (acc @ (tm # ts), g')) \<and>
      length (tm # ts) = Suc n"
    by simp
  then show ?case by blast
qed

text \<open>
  C9: the generator being the sequence of its draws, a run of the driver with at least one
  trial ends and returns a mean, and two runs with the same number of trials, the same
  separation and the same draws return the same mean.
\<close>

theorem same_draws_same_mean:
  assumes "1 \<le> trials" and "\<forall>i. g1 i = g2 i"
  shows "\<exists>m. simulate_v31_final_completion trials sep g1 = Some (Inr m) \<and>
    simulate_v31_final_completion trials sep g2 = Some (Inr m)"
proof -
  from assms(2) have eq: "g2 = g1" by auto
  obtain ts g' where r: "run_trials trials sep g1 [] = Some (Inr ([] @ ts, g'))"
    and l: "length ts = trials"
    using run_trials_returns [of trials sep g1 "[]"] by blast
  from l assms(1) have "ts \<noteq> []" by auto
  with r have "simulate_v31_final_completion trials sep g1
      = Some (Inr (sum_list ts / real (length ts)))"
    by (simp add: simulate_v31_final_completion_def np_mean_def)
  with eq show ?thesis by simp
qed

theorem same_draws_same_mean_witness:
  "(1::nat) \<le> 2 \<and> (\<forall>i. even i = even (i::nat)) \<and>
   (\<exists>m. simulate_v31_final_completion 2 2 (\<lambda>n. even n) = Some (Inr m))"
proof -
  have h1: "(1::nat) \<le> 2" by simp
  have h2: "\<forall>i. (\<lambda>n::nat. even n) i = (\<lambda>n. even n) i" by simp
  from same_draws_same_mean [OF h1 h2, of 2] show ?thesis by simp
qed

lemma loop_timeout:
  assumes "trial_loop s = Some r"
  shows "reachable sep g s \<longrightarrow> r = Inr ((False, tm), g') \<longrightarrow>
    (\<exists>s'. reachable sep g s' \<and> tm = global_t s' \<and> 1000 \<le> tm)"
proof (rule trial_loop.raw_induct [OF _ assms], goal_cases)
  case (1 loop s r)
  show ?case
  proof (intro impI)
    assume reach: "reachable sep g s" and res: "r = Inr ((False, tm), g')"
    show "\<exists>s'. reachable sep g s' \<and> tm = global_t s' \<and> 1000 \<le> tm"
    proof (cases "global_t s < 1000")
      case False
      with 1(2) reach res show ?thesis by auto
    next
      case True
      note lt = this
      show ?thesis
      proof (cases "physics_check s")
        case (Some hit)
        with lt 1(2) res show ?thesis by simp
      next
        case None
        show ?thesis
        proof (cases "update_position s")
          case (Inl e)
          with lt None 1(2) res show ?thesis by simp
        next
          case (Inr s')
          with lt None 1(2) have l: "loop s' = Some r" by simp
          from lt None Inr reach have "reachable sep g s'"
            by (simp add: reach_step)
          with 1(1) [OF l] res show ?thesis by blast
        qed
      qed
    qed
  qed
qed

lemma parallel_run:
  "trial 10000 (\<lambda>n. n < 20) = Some (Inr ((False, 2048), \<lambda>n. False))"
  by (simp add: trial_def trial_init_def ROAPhaseAgent_def engage_phase_drive_def
      np_random_choice_def trial_loop.simps physics_check_def solve_parallel_far
      update_position_def step_dt_def advance_def next_leg_def Let_def)

text \<open>
  C2 as stated fails: with the agents 10000 apart, ten legs to the right and the eleventh
  to the left, the two agents move side by side and never meet, the last step ends at the time
  2048, and this is the time recorded.
\<close>

theorem timeout_value_counterexample:
  "trial 10000 (\<lambda>n. n < 20) = Some (Inr ((False, 2048), \<lambda>n. False)) \<and> (2048::real) \<noteq> 1000"
  using parallel_run by simp

text \<open>
  C2, amended: a trial whose loop ends without a meeting records the global time of the
  state in which the loop ends, and this time is at least 1000.0.
\<close>

theorem timeout_records_exit_time:
  assumes "trial sep g = Some (Inr ((False, tm), g'))"
  shows "\<exists>s. reachable sep g s \<and> tm = global_t s \<and> 1000 \<le> tm"
proof (cases "trial_init sep g")
  case (Inl e)
  with assms show ?thesis by (simp add: trial_def)
next
  case (Inr s)
  with assms have l: "trial_loop s = Some (Inr ((False, tm), g'))"
    by (simp add: trial_def)
  from Inr have "reachable sep g s" by (rule reach_init)
  with loop_timeout [OF l, of sep g tm g'] show ?thesis by blast
qed

theorem timeout_records_exit_time_witness:
  "trial 10000 (\<lambda>n. n < 20) = Some (Inr ((False, 2048), \<lambda>n. False)) \<and>
   (\<exists>s. reachable 10000 (\<lambda>n. n < 20) s \<and> 2048 = global_t s \<and> (1000::real) \<le> 2048)"
  using parallel_run timeout_records_exit_time [OF parallel_run] by simp

section \<open>The constructor in binary64 arithmetic\<close>



lemma absorbed_above: "round_binary64 (10 ^ 17 + 1) = 10 ^ 17"
proof -
  have "\<lfloor>log 2 \<bar>10 ^ 17 + 1 :: real\<bar>\<rfloor> = int 56"
    by (rule floor_log2) simp_all
  then have e: "binary64_exponent (10 ^ 17 + 1) = 56"
    by (simp add: binary64_exponent_def)
  have q: "2 powr real_of_int (56 - 52) = (16::real)"
    by simp
  have n: "round_half_even ((10 ^ 17 + 1) / 16) = 6250000000000000"
    by (rule round_half_even_down) simp_all
  have "round_binary64 (10 ^ 17 + 1) = real_of_int 6250000000000000 * 16"
    by (rule round_binary64_eval [OF _ e q n]) simp
  then show ?thesis by simp
qed

lemma absorbed_below: "round_binary64 (10 ^ 17 - 1) = 10 ^ 17"
proof -
  have "\<lfloor>log 2 \<bar>10 ^ 17 - 1 :: real\<bar>\<rfloor> = int 56"
    by (rule floor_log2) simp_all
  then have e: "binary64_exponent (10 ^ 17 - 1) = 56"
    by (simp add: binary64_exponent_def)
  have q: "2 powr real_of_int (56 - 52) = (16::real)"
    by simp
  have n: "round_half_even ((10 ^ 17 - 1) / 16) = 6249999999999999 + 1"
    by (rule round_half_even_up) simp_all
  have "round_binary64 (10 ^ 17 - 1) = real_of_int (6249999999999999 + 1) * 16"
    by (rule round_binary64_eval [OF _ e q n]) simp
  then show ?thesis by simp
qed

lemma round_binary64_zero: "round_binary64 0 = 0"
  by (simp add: round_binary64_def)

lemma constructor_absorbed: "ROAPhaseAgent_binary64 (10 ^ 17) g = Inl InvalidDivide"
proof -
  have up: "round_binary64 100000000000000001 = 100000000000000000"
    using absorbed_above by simp
  have down: "round_binary64 99999999999999999 = 100000000000000000"
    using absorbed_below by simp
  show ?thesis
    using choice_cases [of g]
    by (auto simp add: ROAPhaseAgent_binary64_def engage_phase_drive_binary64_def Let_def
        up down round_binary64_zero split: prod.splits)
qed


text \<open>
  C10: in binary64 the constructor at the position \<open>1e17\<close> has a zero divisor at line 79.
  The spacing of binary64 at \<open>1e17\<close> is 16, so the sum of line 76, \<open>1e17 + 1.0\<close> or
  \<open>1e17 - 1.0\<close>, is \<open>1e17\<close>: the target is the position and the duration is \<open>0.0\<close>,
  whatever the draw.
\<close>

theorem constructor_divides_by_zero:
  "round_binary64 (10 ^ 17 + 1) = 10 ^ 17 \<and> round_binary64 (10 ^ 17 - 1) = 10 ^ 17 \<and>
   ROAPhaseAgent_binary64 (10 ^ 17) g = Inl InvalidDivide"
  using absorbed_above absorbed_below constructor_absorbed [of g] by simp


end
